theory Spec2Isabelle
  imports Complex_Main
begin

section \<open>Values, exceptions and control flow\<close>

text \<open>
  The solvers of \<^verbatim>\<open>main.py\<close> work on Python numbers. They are modelled over the
  reals: sums, differences and quotients are exact, and overflow, infinities and NaN
  of the machine floats are outside the model. The products whose sign
  \<^verbatim>\<open>bisection\<close> tests are the exception: what it returns depends on whether they are
  exact or products of doubles, so there the multiplication is a parameter of the
  model (see \<open>double_times\<close>). Iteration counts and \<^verbatim>\<open>max_iter\<close> are Python's
  unbounded integers, so they are \<open>int\<close>.

  An evaluator (the caller's \<^verbatim>\<open>f\<close>, \<^verbatim>\<open>df\<close>, \<^verbatim>\<open>ddf\<close>) takes a number and either
  returns a number or raises: \<open>Inl e\<close> is the raise of the exception \<open>e\<close>, an instance
  of Python's \<^verbatim>\<open>Exception\<close>. Being a function, an evaluator is deterministic.
\<close>

type_synonym 'e evaluator = "real \<Rightarrow> 'e + real"

text \<open>
  An exception leaving a solver is either the evaluator's own or Python's
  \<^verbatim>\<open>UnboundLocalError\<close>, raised when a local variable is read before any assignment.
\<close>

datatype 'e exn = Evaluator_error 'e | Unbound_local_error

text \<open>
  What a call of a solver does: it raises (\<open>Inl\<close>), returns \<^verbatim>\<open>None\<close>
  (\<open>Inr None\<close>) or returns a pair of a root estimate and an iteration count.
\<close>

type_synonym 'e outcome = "'e exn + (real \<times> int) option"

text \<open>
  One pass through the body of a \<^verbatim>\<open>for\<close> loop either leaves the function
  (\<open>Exit\<close>, by \<^verbatim>\<open>return\<close> or by an exception) or goes on with the updated local
  variables (\<open>Next\<close>). The loop runs the body over the values of its range in order and
  stops at the first exit.
\<close>

datatype ('r, 's) flow = Exit 'r | Next 's

fun for_loop :: "('s \<Rightarrow> 'i \<Rightarrow> ('r, 's) flow) \<Rightarrow> 's \<Rightarrow> 'i list \<Rightarrow> ('r, 's) flow" where
  "for_loop body s [] = Next s"
| "for_loop body s (x # xs) =
     (case body s x of Exit r \<Rightarrow> Exit r | Next s' \<Rightarrow> for_loop body s' xs)"

text \<open>The only output of the program: the notice printed by \<^verbatim>\<open>bisection\<close> when the
  iteration budget is used up; it carries the value of \<^verbatim>\<open>max_iter\<close> it mentions.\<close>

datatype notice = Max_iter_notice int

section \<open>Difference quotient\<close>

definition difference_quotient :: "'e evaluator \<Rightarrow> real \<Rightarrow> real \<Rightarrow> 'e exn + real option" where
  "difference_quotient f x h =
     (if h = 0 then Inr None
      else case f (x + h) of
        Inl e \<Rightarrow> Inl (Evaluator_error e)
      | Inr u \<Rightarrow> (case f x of
          Inl e \<Rightarrow> Inl (Evaluator_error e)
        | Inr v \<Rightarrow> Inr (Some ((u - v) / h))))"

section \<open>Bisection\<close>

text \<open>The local variables of \<^verbatim>\<open>bisection\<close> that live across iterations.\<close>

record bisection_state =
  f_a :: real
  f_b :: real
  iter_count :: int
  current_a :: real
  current_b :: real

text \<open>
  Lines 100, 126 and 129 multiply two function values and compare the product with
  zero. The function takes the multiplication as its first argument \<open>mul\<close>: the exact
  product \<open>(*)\<close>, or the product of two doubles. Python's \<^verbatim>\<open>*\<close> on floats returns the
  double nearest to the exact product, ties to even; the smallest positive double is
  \<open>2 ^ -1074\<close>, so an exact product of magnitude at most \<open>2 ^ -1075\<close> comes out as a
  zero (\<^verbatim>\<open>0.0\<close> or \<^verbatim>\<open>-0.0\<close>, neither of which is \<^verbatim>\<open>< 0\<close> or \<^verbatim>\<open>> 0\<close>), and a
  larger one as a double of the same sign. The code uses nothing but the sign of these
  products, so \<open>double_times\<close> keeps the exact value where the product does not
  underflow.
\<close>

definition double_times :: "real \<Rightarrow> real \<Rightarrow> real" where
  "double_times x y = (if \<bar>x * y\<bar> \<le> 1 / 2 ^ 1075 then 0 else x * y)"

text \<open>The loop body, lines 113 to 133; \<open>i\<close> is the loop variable. An exception of the
  evaluator is caught and turned into \<^verbatim>\<open>return None\<close>.\<close>

definition bisection_body ::
  "(real \<Rightarrow> real \<Rightarrow> real) \<Rightarrow> 'e evaluator \<Rightarrow> real \<Rightarrow> bisection_state \<Rightarrow> int \<Rightarrow>
     ('e outcome, bisection_state) flow" where
  "bisection_body mul f epsilon s i =
     (let s1 = s\<lparr>iter_count := i\<rparr>;
          c = (current_a s1 + current_b s1) / 2
      in case f c of
        Inl e \<Rightarrow> Exit (Inr None)
      | Inr f_c \<Rightarrow>
          if \<bar>f_c\<bar> < epsilon then Exit (Inr (Some (c, iter_count s1)))
          else if mul (f_a s1) f_c < 0 then Next (s1\<lparr>current_b := c\<rparr>)
          else if mul f_c (f_b s1) < 0 then Next (s1\<lparr>current_a := c\<rparr>)
          else Exit (Inr (Some (c, iter_count s1))))"

text \<open>The local variables as the loop finds them at line 112.\<close>

definition bisection_init :: "real \<Rightarrow> real \<Rightarrow> real \<Rightarrow> real \<Rightarrow> bisection_state" where
  "bisection_init a b fa fb =
     \<lparr>f_a = fa, f_b = fb, iter_count = 0, current_a = a, current_b = b\<rparr>"

text \<open>The whole function. It takes the standard output so far and returns it with what
  it printed; \<^verbatim>\<open>range(1, max_iter + 1)\<close> is the list \<open>[1..max_iter]\<close>.\<close>

definition bisection ::
  "(real \<Rightarrow> real \<Rightarrow> real) \<Rightarrow> real \<Rightarrow> real \<Rightarrow> 'e evaluator \<Rightarrow> real \<Rightarrow> int \<Rightarrow> notice list \<Rightarrow>
     'e outcome \<times> notice list" where
  "bisection mul a b f epsilon max_iter out =
     (if a \<ge> b then (Inr None, out)
      else case f a of
        Inl e \<Rightarrow> (Inr None, out)
      | Inr fa \<Rightarrow> (case f b of
          Inl e \<Rightarrow> (Inr None, out)
        | Inr fb \<Rightarrow>
            if mul fa fb > 0 then (Inr None, out)
            else if \<bar>fa\<bar> < epsilon then (Inr (Some (a, 0)), out)
            else if \<bar>fb\<bar> < epsilon then (Inr (Some (b, 0)), out)
            else (case for_loop (bisection_body mul f epsilon) (bisection_init a b fa fb)
                    [1..max_iter] of
                Exit r \<Rightarrow> (r, out)
              | Next s \<Rightarrow>
                  (Inr (Some ((current_a s + current_b s) / 2, max_iter)),
                   out @ [Max_iter_notice max_iter]))))"

section \<open>Secant\<close>

text \<open>The local variables of \<^verbatim>\<open>secant\<close>. \<^verbatim>\<open>c\<close> has no value until the loop body
  assigns it, so it is an option.\<close>

record secant_state =
  sec_a :: real
  sec_b :: real
  sec_fa :: real
  sec_fb :: real
  sec_c :: "real option"
  sec_i :: int

text \<open>The secant step of line 162.\<close>

definition secant_point :: "secant_state \<Rightarrow> real" where
  "secant_point s = sec_b s - sec_fb s * (sec_b s - sec_a s) / (sec_fb s - sec_fa s)"

text \<open>The loop body, lines 156 to 175. The loop variable is not used; an exception of
  the evaluator is not caught.\<close>

definition secant_body ::
  "'e evaluator \<Rightarrow> real \<Rightarrow> secant_state \<Rightarrow> int \<Rightarrow> ('e outcome, secant_state) flow" where
  "secant_body f epsilon s k =
     (let s1 = s\<lparr>sec_i := sec_i s + 1\<rparr>
      in if sec_fb s1 = sec_fa s1 then Exit (Inr None)
         else let c = secant_point s1 in
           case f c of
             Inl e \<Rightarrow> Exit (Inl (Evaluator_error e))
           | Inr fc \<Rightarrow>
               let s2 = s1\<lparr>sec_c := Some c\<rparr> in
               if \<bar>fc\<bar> < epsilon \<or> \<bar>c - sec_b s2\<bar> < epsilon then Exit (Inr (Some (c, sec_i s2)))
               else if sec_fa s2 * fc < 0 then Next (s2\<lparr>sec_b := c, sec_fb := fc\<rparr>)
               else Next (s2\<lparr>sec_a := c, sec_fa := fc\<rparr>))"

definition secant_init :: "real \<Rightarrow> real \<Rightarrow> real \<Rightarrow> real \<Rightarrow> secant_state" where
  "secant_init a b fa fb =
     \<lparr>sec_a = a, sec_b = b, sec_fa = fa, sec_fb = fb, sec_c = None, sec_i = 0\<rparr>"

text \<open>The whole function; \<^verbatim>\<open>range(max_iters)\<close> is the list \<open>[0..max_iters - 1]\<close>. The
  last line reads \<^verbatim>\<open>c\<close>, which is unbound when the body never ran.\<close>

definition secant :: "real \<Rightarrow> real \<Rightarrow> 'e evaluator \<Rightarrow> real \<Rightarrow> int \<Rightarrow> 'e outcome" where
  "secant a b f epsilon max_iters =
     (case f a of
        Inl e \<Rightarrow> Inl (Evaluator_error e)
      | Inr fa \<Rightarrow> (case f b of
          Inl e \<Rightarrow> Inl (Evaluator_error e)
        | Inr fb \<Rightarrow>
            if fa * fb \<ge> 0 then Inr None
            else (case for_loop (secant_body f epsilon) (secant_init a b fa fb) [0..max_iters - 1] of
                Exit r \<Rightarrow> r
              | Next s \<Rightarrow> (case sec_c s of
                  None \<Rightarrow> Inl Unbound_local_error
                | Some c \<Rightarrow> Inr (Some (c, sec_i s))))))"

section \<open>Newton\<close>

record newton_state =
  x_curr :: real
  iteration :: int

text \<open>The choice of the starting point, lines 200 to 205. Python evaluates \<^verbatim>\<open>f(a)\<close>
  before \<^verbatim>\<open>ddf(a)\<close>, and the second condition only when the first fails.\<close>

definition newton_start :: "'e evaluator \<Rightarrow> 'e evaluator \<Rightarrow> real \<Rightarrow> real \<Rightarrow> 'e exn + real" where
  "newton_start f ddf a b =
     (case f a of
        Inl e \<Rightarrow> Inl (Evaluator_error e)
      | Inr fa \<Rightarrow> (case ddf a of
          Inl e \<Rightarrow> Inl (Evaluator_error e)
        | Inr dda \<Rightarrow>
            if fa * dda > 0 then Inr a
            else (case f b of
                Inl e \<Rightarrow> Inl (Evaluator_error e)
              | Inr fb \<Rightarrow> (case ddf b of
                  Inl e \<Rightarrow> Inl (Evaluator_error e)
                | Inr ddb \<Rightarrow>
                    if fb * ddb > 0 then Inr b else Inr ((a + b) / 2)))))"

text \<open>The loop body, lines 209 to 220. The \<^verbatim>\<open>or\<close> of line 217 evaluates
  \<^verbatim>\<open>f(x_new)\<close> only when the step is not small.\<close>

definition newton_body ::
  "'e evaluator \<Rightarrow> 'e evaluator \<Rightarrow> real \<Rightarrow> newton_state \<Rightarrow> int \<Rightarrow> ('e outcome, newton_state) flow" where
  "newton_body f df epsilon s k =
     (let s1 = s\<lparr>iteration := iteration s + 1\<rparr>
      in case df (x_curr s1) of
        Inl e \<Rightarrow> Exit (Inl (Evaluator_error e))
      | Inr deriv_val \<Rightarrow>
          if deriv_val = 0 then Exit (Inr None)
          else (case f (x_curr s1) of
              Inl e \<Rightarrow> Exit (Inl (Evaluator_error e))
            | Inr fx \<Rightarrow>
                let x_new = x_curr s1 - fx / deriv_val in
                if \<bar>x_new - x_curr s1\<bar> < epsilon then Exit (Inr (Some (x_new, iteration s1)))
                else (case f x_new of
                    Inl e \<Rightarrow> Exit (Inl (Evaluator_error e))
                  | Inr fn \<Rightarrow>
                      if \<bar>fn\<bar> < epsilon then Exit (Inr (Some (x_new, iteration s1)))
                      else Next (s1\<lparr>x_curr := x_new\<rparr>))))"

definition newton_init :: "real \<Rightarrow> newton_state" where
  "newton_init x0 = \<lparr>x_curr = x0, iteration = 0\<rparr>"

text \<open>Lines 207 to 222: the iteration from the chosen starting point;
  \<^verbatim>\<open>range(max_iter)\<close> is the list \<open>[0..max_iter - 1]\<close>.\<close>

definition newton_iterate ::
  "'e evaluator \<Rightarrow> 'e evaluator \<Rightarrow> real \<Rightarrow> int \<Rightarrow> real \<Rightarrow> 'e outcome" where
  "newton_iterate f df epsilon max_iter x0 =
     (case for_loop (newton_body f df epsilon) (newton_init x0) [0..max_iter - 1] of
        Exit r \<Rightarrow> r
      | Next s \<Rightarrow> Inr (Some (x_curr s, iteration s)))"

definition newton ::
  "'e evaluator \<Rightarrow> 'e evaluator \<Rightarrow> 'e evaluator \<Rightarrow> real \<Rightarrow> real \<Rightarrow> real \<Rightarrow> int \<Rightarrow> 'e outcome" where
  "newton f df ddf a b epsilon max_iter =
     (case newton_start f ddf a b of
        Inl x \<Rightarrow> Inl x
      | Inr x0 \<Rightarrow> newton_iterate f df epsilon max_iter x0)"

section \<open>Concrete evaluators\<close>

text \<open>Evaluators on which the theorems below are instantiated: a line with its root at
  \<open>3/4\<close>, a parabola with its two derivatives, an evaluator that raises everywhere
  and one that raises at \<open>1/2\<close> only.\<close>

definition f_lin :: "unit evaluator" where
  "f_lin x = Inr (x - 3 / 4)"

definition f_sq :: "unit evaluator" where
  "f_sq x = Inr (x * x - 1 / 4)"

definition df_sq :: "unit evaluator" where
  "df_sq x = Inr (2 * x)"

definition ddf_sq :: "unit evaluator" where
  "ddf_sq x = Inr 2"

definition f_raise :: "unit evaluator" where
  "f_raise x = Inl ()"

definition f_mid_raise :: "unit evaluator" where
  "f_mid_raise x = (if x = 1 / 2 then Inl () else Inr (x - 3 / 4))"

text \<open>An evaluator that raises at \<open>3/4\<close>, the first secant point of the line over
  \<open>[0, 1]\<close>.\<close>

definition f_root_raise :: "unit evaluator" where
  "f_root_raise x = (if x = 3 / 4 then Inl () else Inr (x - 3 / 4))"

text \<open>The scaling \<^verbatim>\<open>lambda x: x * 2**-520\<close>; on the doubles below it is exact.\<close>

definition f_tiny :: "unit evaluator" where
  "f_tiny x = Inr (x * (1 / 2 ^ 520))"

text \<open>A derivative evaluator that is flat at \<open>5/8\<close>, the second Newton iterate of the
  parabola from \<open>1\<close>.\<close>

definition df_kink :: "unit evaluator" where
  "df_kink x = Inr (if x = 5 / 8 then 0 else 2 * x)"

section \<open>Invariants of the bisection loop\<close>

text \<open>The cached values are the original ones, and the function keeps the sign of
  \<^verbatim>\<open>f(a)\<close> at the lower endpoint and the sign of \<^verbatim>\<open>f(b)\<close> at the upper one.\<close>

definition bisection_signs :: "(real \<Rightarrow> real) \<Rightarrow> real \<Rightarrow> real \<Rightarrow> bisection_state \<Rightarrow> bool" where
  "bisection_signs g fa fb s \<longleftrightarrow>
     f_a s = fa \<and> f_b s = fb \<and>
     sgn (g (current_a s)) = sgn fa \<and> sgn (g (current_b s)) = sgn fb"

text \<open>The current interval is not empty and lies within the original one.\<close>

definition bisection_range :: "real \<Rightarrow> real \<Rightarrow> bisection_state \<Rightarrow> bool" where
  "bisection_range a b s \<longleftrightarrow> a \<le> current_a s \<and> current_a s < current_b s \<and> current_b s \<le> b"

section \<open>The loop combinator\<close>

lemma for_loop_append:
  "for_loop body s (xs @ ys) =
     (case for_loop body s xs of Exit r \<Rightarrow> Exit r | Next s' \<Rightarrow> for_loop body s' ys)"
  by (induction xs arbitrary: s) (auto split: flow.splits)

lemma for_loop_exit_at:
  assumes "for_loop body s xs = Next s'" and "body s' x = Exit r"
  shows "for_loop body s (xs @ x # ys) = Exit r"
  using assms by (simp add: for_loop_append)

lemma for_loop_exit_split:
  "for_loop body s xs = Exit r \<Longrightarrow>
     \<exists>ys x zs s'. xs = ys @ x # zs \<and> for_loop body s ys = Next s' \<and> body s' x = Exit r"
proof (induction xs arbitrary: s)
  case Nil
  then show ?case by simp
next
  case (Cons y xs)
  show ?case
  proof (cases "body s y")
    case (Exit r')
    with Cons.prems have "r' = r" by simp
    with Exit have "y # xs = [] @ y # xs \<and> for_loop body s [] = Next s \<and> body s y = Exit r"
      by simp
    then show ?thesis by blast
  next
    case (Next s1)
    with Cons.prems have "for_loop body s1 xs = Exit r" by simp
    from Cons.IH [OF this] obtain ys x zs s' where
      *: "xs = ys @ x # zs" "for_loop body s1 ys = Next s'" "body s' x = Exit r"
      by blast
    from * Next have "y # xs = (y # ys) @ x # zs \<and> for_loop body s (y # ys) = Next s' \<and> body s' x = Exit r"
      by simp
    then show ?thesis by blast
  qed
qed

text \<open>A property that every pass of the body keeps holds when the loop falls through.\<close>

lemma for_loop_invariant:
  assumes "for_loop body s xs = Next s'"
    and "P s"
    and "\<And>t x t'. P t \<Longrightarrow> body t x = Next t' \<Longrightarrow> P t'"
  shows "P s'"
  using assms(1,2)
proof (induction xs arbitrary: s)
  case Nil
  then show ?case by simp
next
  case (Cons x xs)
  then show ?case
    by (auto split: flow.splits intro: assms(3))
qed

text \<open>A prefix of a range of integers is a range.\<close>

lemma upto_prefix:
  "[i..j] = ys @ x # zs \<Longrightarrow> ys = [i..x - 1]"
proof (induction ys arbitrary: i)
  case Nil
  then have "i \<le> j" by (cases "i \<le> j") simp_all
  with Nil have "i = x" by (simp add: upto_rec1)
  then show ?case by simp
next
  case (Cons y ys)
  then have le: "i \<le> j" by (cases "i \<le> j") simp_all
  then have "[i..j] = i # [i + 1..j]" by (rule upto_rec1)
  with Cons.prems have y: "y = i" and rest: "[i + 1..j] = ys @ x # zs"
    by auto
  from Cons.IH [OF rest] have ys: "ys = [i + 1..x - 1]" .
  have "x \<in> set [i + 1..j]" by (simp add: rest)
  then have "i \<le> x - 1" by simp
  then have "[i..x - 1] = i # [i + 1..x - 1]" by (simp add: upto_rec1)
  with y ys show ?case by simp
qed

lemma upto_member_split:
  assumes "i \<le> k" and "k \<le> j"
  shows "[i..j] = [i..k - 1] @ k # [k + 1..j]"
  using assms by (rule upto_split3)

section \<open>Difference quotient\<close>

text \<open>
  Claim C8. \<^verbatim>\<open>difference_quotient(f, x, h)\<close> returns \<^verbatim>\<open>None\<close> when \<open>h = 0\<close>, without
  raising and whatever the evaluator does (it is not called); for \<open>h \<noteq> 0\<close>, when the
  evaluator returns \<open>u\<close> at \<open>x + h\<close> and \<open>v\<close> at \<open>x\<close>, it returns exactly
  \<open>(u - v) / h\<close>.
\<close>

theorem difference_quotient_spec:
  "difference_quotient f x 0 = Inr None \<and>
   (h \<noteq> 0 \<longrightarrow> f (x + h) = Inr u \<longrightarrow> f x = Inr v \<longrightarrow>
      difference_quotient f x h = Inr (Some ((u - v) / h)))"
  by (simp add: difference_quotient_def)

theorem difference_quotient_spec_witness:
  "difference_quotient f_raise 1 0 = Inr None \<and>
   (1 / 2 :: real) \<noteq> 0 \<and> f_lin (1 + 1 / 2) = Inr (3 / 4) \<and> f_lin 1 = Inr (1 / 4) \<and>
   difference_quotient f_lin 1 (1 / 2) = Inr (Some ((3 / 4 - 1 / 4) / (1 / 2)))"
  using difference_quotient_spec [of f_raise 1]
    difference_quotient_spec [of f_lin 1 "1 / 2" "3 / 4" "1 / 4"]
  by (simp add: f_lin_def)

section \<open>Newton: the starting point and the empty iteration\<close>

text \<open>
  Claim C7. When the evaluators return \<open>fa\<close> and \<open>dda\<close> at \<open>a\<close> and, in case
  \<open>fa * dda > 0\<close> fails, \<open>fb\<close> and \<open>ddb\<close> at \<open>b\<close>, the starting point is \<open>a\<close> if
  \<open>fa * dda > 0\<close>, else \<open>b\<close> if \<open>fb * ddb > 0\<close>, else the midpoint \<open>(a + b) / 2\<close>, and
  \<^verbatim>\<open>newton\<close> is the iteration from that point.
\<close>

theorem newton_start_choice:
  assumes "f a = Inr fa" and "ddf a = Inr dda"
    and "\<not> fa * dda > 0 \<longrightarrow> f b = Inr fb \<and> ddf b = Inr ddb"
  shows "newton_start f ddf a b =
           Inr (if fa * dda > 0 then a else if fb * ddb > 0 then b else (a + b) / 2) \<and>
         newton f df ddf a b epsilon max_iter =
           newton_iterate f df epsilon max_iter
             (if fa * dda > 0 then a else if fb * ddb > 0 then b else (a + b) / 2)"
  using assms by (simp add: newton_def newton_start_def)

theorem newton_start_choice_witness:
  "f_sq 0 = Inr (- (1 / 4)) \<and> ddf_sq 0 = Inr 2 \<and> \<not> - (1 / 4) * 2 > (0::real) \<and>
   f_sq 1 = Inr (3 / 4) \<and> ddf_sq 1 = Inr 2 \<and>
   newton_start f_sq ddf_sq 0 1 = Inr 1 \<and>
   newton f_sq df_sq ddf_sq 0 1 (1 / 100) 5 = newton_iterate f_sq df_sq (1 / 100) 5 1"
  using newton_start_choice [of f_sq 0 "- (1 / 4)" ddf_sq 2 1 "3 / 4" 2 df_sq "1 / 100" 5]
  by (simp add: f_sq_def ddf_sq_def)

text \<open>
  Claim C9. With \<^verbatim>\<open>max_iter = 0\<close> the loop body never runs: \<^verbatim>\<open>newton\<close> returns the
  selected starting point with the count 0, and raises only what the choice of the
  starting point raises. The result is never \<^verbatim>\<open>None\<close> and is the same for every
  \<^verbatim>\<open>df\<close>, also one that raises everywhere: \<^verbatim>\<open>df\<close> is not evaluated.
\<close>

theorem newton_zero_iterations:
  "newton f df ddf a b epsilon 0 =
     (case newton_start f ddf a b of Inl x \<Rightarrow> Inl x | Inr x0 \<Rightarrow> Inr (Some (x0, 0))) \<and>
   newton f df ddf a b epsilon 0 \<noteq> Inr None \<and>
   newton f df ddf a b epsilon 0 = newton f df' ddf a b epsilon 0"
  by (simp add: newton_def newton_iterate_def newton_init_def split: sum.splits)

section \<open>Bisection: signs, endpoints and the result\<close>

lemma sign_same_as_right:
  fixes fa fb fc :: real
  assumes "fa * fb < 0" and "fa * fc < 0"
  shows "sgn fc = sgn fb"
  using assms by (auto simp: sgn_if mult_less_0_iff)

lemma sign_same_as_left:
  fixes fa fb fc :: real
  assumes "fa * fb < 0" and "fc * fb < 0"
  shows "sgn fc = sgn fa"
  using assms by (auto simp: sgn_if mult_less_0_iff)

lemma sign_dichotomy:
  fixes fa fb fc :: real
  assumes "fa * fb < 0" and "fc \<noteq> 0"
  shows "fa * fc < 0 \<or> fc * fb < 0"
  using assms by (auto simp: mult_less_0_iff)

lemma opposite_signs:
  fixes x y fa fb :: real
  assumes "fa * fb < 0" and "sgn x = sgn fa" and "sgn y = sgn fb"
  shows "x * y < 0"
  using assms by (auto simp: sgn_if mult_less_0_iff split: if_splits)

lemma bisection_body_cases:
  assumes "c = (current_a s + current_b s) / 2" and "f c = Inr fc"
  shows "bisection_body mul f epsilon s i =
    (if \<bar>fc\<bar> < epsilon then Exit (Inr (Some (c, i)))
     else if mul (f_a s) fc < 0 then Next (s\<lparr>iter_count := i, current_b := c\<rparr>)
     else if mul fc (f_b s) < 0 then Next (s\<lparr>iter_count := i, current_a := c\<rparr>)
     else Exit (Inr (Some (c, i))))"
  using assms(2) unfolding assms(1) by (simp add: bisection_body_def Let_def)

lemma bisection_body_signs:
  assumes inv: "bisection_signs g fa fb s"
    and ev: "f ((current_a s + current_b s) / 2) = Inr (g ((current_a s + current_b s) / 2))"
    and opp: "fa * fb < 0" and eps: "0 < epsilon"
  shows "(\<forall>s'. bisection_body (*) f epsilon s i = Next s' \<longrightarrow> bisection_signs g fa fb s' \<and>
            (s' = s\<lparr>iter_count := i, current_b := (current_a s + current_b s) / 2\<rparr> \<or>
             s' = s\<lparr>iter_count := i, current_a := (current_a s + current_b s) / 2\<rparr>)) \<and>
         (\<forall>r. bisection_body (*) f epsilon s i = Exit r \<longrightarrow>
            r = Inr (Some ((current_a s + current_b s) / 2, i)) \<and>
            \<bar>g ((current_a s + current_b s) / 2)\<bar> < epsilon)"
proof -
  define c where "c = (current_a s + current_b s) / 2"
  from inv have fa: "f_a s = fa" and fb: "f_b s = fb"
    and sa: "sgn (g (current_a s)) = sgn fa" and sb: "sgn (g (current_b s)) = sgn fb"
    by (simp_all add: bisection_signs_def)
  from ev have "f c = Inr (g c)" by (simp add: c_def)
  note body = bisection_body_cases [where mul = "(*)" and c = c and s = s and f = f
      and fc = "g c" and epsilon = epsilon and i = i, OF c_def this, unfolded fa fb]
  show ?thesis
  proof (cases "\<bar>g c\<bar> < epsilon")
    case True
    with body show ?thesis by (simp add: c_def)
  next
    case False
    with eps have nz: "g c \<noteq> 0" by auto
    show ?thesis
    proof (cases "fa * g c < 0")
      case True
      from sign_same_as_right [OF opp True] have "sgn (g c) = sgn fb" .
      with body False True fa fb sa show ?thesis
        by (simp add: bisection_signs_def c_def)
    next
      case left: False
      with sign_dichotomy [OF opp nz] have right: "g c * fb < 0" by simp
      from sign_same_as_left [OF opp right] have "sgn (g c) = sgn fa" .
      with body False left right fa fb sb show ?thesis
        by (simp add: bisection_signs_def c_def)
    qed
  qed
qed

lemma bisection_body_range:
  assumes "bisection_range a b s" and "bisection_body mul f epsilon s i = Next s'"
  shows "bisection_range a b s'"
  using assms
  by (auto simp: bisection_body_def bisection_range_def Let_def split: sum.splits if_splits)


lemma bisection_body_frame:
  assumes "bisection_body mul f epsilon s i = Next s'"
  shows "f_a s' = f_a s \<and> f_b s' = f_b s"
  using assms by (auto simp: bisection_body_def Let_def split: sum.splits if_splits)

lemma bisection_loop_signs:
  assumes ev: "\<And>t. R t \<Longrightarrow>
      f ((current_a t + current_b t) / 2) = Inr (g ((current_a t + current_b t) / 2))"
    and keep: "\<And>t i t'. R t \<Longrightarrow> bisection_body (*) f epsilon t i = Next t' \<Longrightarrow> R t'"
    and opp: "fa * fb < 0" and eps: "0 < epsilon"
    and inv: "bisection_signs g fa fb s" and r: "R s"
  shows "(\<forall>s'. for_loop (bisection_body (*) f epsilon) s xs = Next s' \<longrightarrow>
            bisection_signs g fa fb s' \<and> R s') \<and>
         (\<forall>r. for_loop (bisection_body (*) f epsilon) s xs = Exit r \<longrightarrow>
            (\<exists>c i. r = Inr (Some (c, i)) \<and> \<bar>g c\<bar> < epsilon \<and> i \<in> set xs))"
  using inv r
proof (induction xs arbitrary: s)
  case Nil
  then show ?case by simp
next
  case (Cons x xs)
  note body = bisection_body_signs [of g fa fb s f epsilon x,
      OF Cons.prems(1) ev [OF Cons.prems(2)] opp eps]
  show ?case
  proof (cases "bisection_body (*) f epsilon s x")
    case (Exit r0)
    with body have "r0 = Inr (Some ((current_a s + current_b s) / 2, x))"
      and "\<bar>g ((current_a s + current_b s) / 2)\<bar> < epsilon"
      by blast+
    then have "\<exists>c i. r0 = Inr (Some (c, i)) \<and> \<bar>g c\<bar> < epsilon \<and> i \<in> set (x # xs)"
      by (intro exI [of _ "(current_a s + current_b s) / 2"] exI [of _ x]) simp
    moreover from Exit have "for_loop (bisection_body (*) f epsilon) s (x # xs) = Exit r0"
      by simp
    ultimately show ?thesis by (simp del: divide_eq_eq_numeral1 eq_divide_eq_numeral1)
  next
    case (Next s1)
    with body have "bisection_signs g fa fb s1" by blast
    moreover from keep [OF Cons.prems(2) Next] have "R s1" .
    ultimately have "(\<forall>s'. for_loop (bisection_body (*) f epsilon) s1 xs = Next s' \<longrightarrow>
            bisection_signs g fa fb s' \<and> R s') \<and>
         (\<forall>r. for_loop (bisection_body (*) f epsilon) s1 xs = Exit r \<longrightarrow>
            (\<exists>c i. r = Inr (Some (c, i)) \<and> \<bar>g c\<bar> < epsilon \<and> i \<in> set xs))"
      by (rule Cons.IH)
    with Next show ?thesis by auto
  qed
qed

lemma bisection_init_signs: "bisection_signs g (g a) (g b) (bisection_init a b (g a) (g b))"
  by (simp add: bisection_signs_def bisection_init_def)

lemma bisection_init_range: "a < b \<Longrightarrow> bisection_range a b (bisection_init a b fa fb)"
  by (simp add: bisection_range_def bisection_init_def)

lemma bisection_range_mid:
  assumes "bisection_range a b t"
  shows "a \<le> (current_a t + current_b t) / 2 \<and> (current_a t + current_b t) / 2 \<le> b"
  using assms by (auto simp: bisection_range_def)

lemma bisection_loop_exit_cases:
  assumes ev: "\<forall>x. a \<le> x \<and> x \<le> b \<longrightarrow> f x = Inr (g x)"
    and s: "f_a s = fa \<and> f_b s = fb \<and> bisection_range a b s"
    and ex: "for_loop (bisection_body mul f epsilon) s xs = Exit r"
  shows "\<exists>c i. r = Inr (Some (c, i)) \<and> a \<le> c \<and> c \<le> b \<and>
           (\<exists>ys zs s'. xs = ys @ i # zs \<and>
              for_loop (bisection_body mul f epsilon) s ys = Next s' \<and>
              c = (current_a s' + current_b s') / 2) \<and>
           (\<bar>g c\<bar> < epsilon \<or> \<not> mul fa (g c) < 0 \<and> \<not> mul (g c) fb < 0)"
proof -
  from for_loop_exit_split [OF ex] obtain ys i zs s' where
    xs: "xs = ys @ i # zs"
    and pre: "for_loop (bisection_body mul f epsilon) s ys = Next s'"
    and body: "bisection_body mul f epsilon s' i = Exit r"
    by blast
  have inv: "f_a s' = fa \<and> f_b s' = fb \<and> bisection_range a b s'"
  proof (rule for_loop_invariant [OF pre,
        where P = "\<lambda>t. f_a t = fa \<and> f_b t = fb \<and> bisection_range a b t"])
    show "f_a s = fa \<and> f_b s = fb \<and> bisection_range a b s" by (rule s)
  next
    fix t x t'
    assume t: "f_a t = fa \<and> f_b t = fb \<and> bisection_range a b t"
      and step: "bisection_body mul f epsilon t x = Next t'"
    from bisection_body_frame [OF step] t have "f_a t' = fa \<and> f_b t' = fb" by simp
    moreover from t step have "bisection_range a b t'" by (blast intro: bisection_body_range)
    ultimately show "f_a t' = fa \<and> f_b t' = fb \<and> bisection_range a b t'" by simp
  qed
  define c where "c = (current_a s' + current_b s') / 2"
  from inv have "bisection_range a b s'" by simp
  from bisection_range_mid [OF this] have c: "a \<le> c" "c \<le> b" by (simp_all add: c_def)
  with ev have "f c = Inr (g c)" by simp
  note cases = bisection_body_cases [where mul = mul and c = c and s = s' and f = f
      and fc = "g c" and epsilon = epsilon and i = i, OF c_def this]
  from body cases inv have "r = Inr (Some (c, i))"
    and "\<bar>g c\<bar> < epsilon \<or> \<not> mul fa (g c) < 0 \<and> \<not> mul (g c) fb < 0"
    by (auto split: if_splits)
  moreover from xs pre c_def
  have "\<exists>ys zs s'. xs = ys @ i # zs \<and>
      for_loop (bisection_body mul f epsilon) s ys = Next s' \<and>
      c = (current_a s' + current_b s') / 2"
    by blast
  ultimately show ?thesis using c by blast
qed

text \<open>
  Claim C1 promises a pair \<open>(c, n)\<close> with \<open>\<bar>f(c)\<bar> < epsilon\<close> or \<open>n = max_iter\<close>
  whenever \<open>a < b\<close>, \<open>f(a) * f(b) < 0\<close>, \<open>epsilon > 0\<close> and \<open>max_iter \<ge> 1\<close>. With Python's
  floats the call
  \<^verbatim>\<open>bisection(-1, 1 + 2**-40, lambda x: x * 2**-520, 2**-600, 5)\<close> meets every
  hypothesis: the product of \<open>f(a) = - 2 ^ -520\<close> and \<open>f(b)\<close> is negative and does not
  underflow. In the first pass \<open>c = 2 ^ -41\<close> and \<open>f(c) = 2 ^ -561\<close>, which is not below
  \<open>epsilon\<close>; both products \<open>f_a * f_c\<close> and \<open>f_c * f_b\<close> have magnitude about
  \<open>2 ^ -1081\<close> and underflow to zero, so neither is negative and the \<^verbatim>\<open>else\<close> of line
  133 returns \<open>(2 ^ -41, 1)\<close>: the tolerance is not met and \<open>1\<close> is not \<^verbatim>\<open>max_iter\<close>.
\<close>

theorem bisection_underflow_counterexample:
  "(- 1 :: real) < 1 + 1 / 2 ^ 40 \<and>
   f_tiny (- 1) = Inr (- 1 / 2 ^ 520) \<and>
   f_tiny (1 + 1 / 2 ^ 40) = Inr ((1 + 1 / 2 ^ 40) / 2 ^ 520) \<and>
   double_times (- 1 / 2 ^ 520) ((1 + 1 / 2 ^ 40) / 2 ^ 520) < 0 \<and>
   (0 :: real) < 1 / 2 ^ 600 \<and> (1 :: int) \<le> 5 \<and>
   fst (bisection double_times (- 1) (1 + 1 / 2 ^ 40) f_tiny (1 / 2 ^ 600) 5 []) =
     Inr (Some (1 / 2 ^ 41, 1)) \<and>
   f_tiny (1 / 2 ^ 41) = Inr (1 / 2 ^ 561) \<and>
   \<not> \<bar>1 / 2 ^ 561 :: real\<bar> < 1 / 2 ^ 600 \<and> (1 :: int) \<noteq> 5"
  by (simp add: bisection_def bisection_body_def bisection_init_def f_tiny_def double_times_def
      Let_def upto.simps)

text \<open>
  Claim C1, amended. Let \<open>a < b\<close> be floats, let the evaluator return \<open>g x\<close> without
  raising at every point of \<open>[a, b]\<close>, let the product of \<open>g a\<close> and \<open>g b\<close>, as \<open>mul\<close>
  computes it, be negative, and \<open>epsilon > 0\<close>. Then \<^verbatim>\<open>bisection\<close> returns a pair
  \<open>(c, n)\<close>, never \<^verbatim>\<open>None\<close>, for which one of three things holds: \<open>\<bar>g c\<bar> < epsilon\<close>;
  or \<open>n = max_iter\<close>, the loop has run through its whole range and \<open>c\<close> is the midpoint
  of the interval it ended with; or \<open>c\<close> is the midpoint of pass \<open>n\<close>, with
  \<open>1 \<le> n \<le> max_iter\<close>, reached after \<open>n - 1\<close> passes that went on, and neither computed
  product \<open>f_a * f_c\<close>, \<open>f_c * f_b\<close> is negative (the \<^verbatim>\<open>else\<close> of line 133). With exact products the third case does not
  occur beside the first, so there \<open>\<bar>g c\<bar> < epsilon\<close> or \<open>n = max_iter\<close>. This holds for
  every \<^verbatim>\<open>max_iter\<close>, in particular for \<open>max_iter \<ge> 1\<close>.
\<close>

theorem bisection_result:
  assumes ab: "a < b"
    and ev: "\<forall>x. a \<le> x \<and> x \<le> b \<longrightarrow> f x = Inr (g x)"
    and opp: "mul (g a) (g b) < 0"
    and eps: "0 < epsilon"
  shows "\<exists>c n. fst (bisection mul a b f epsilon max_iter out) = Inr (Some (c, n)) \<and>
           (\<bar>g c\<bar> < epsilon \<or>
            (n = max_iter \<and>
             (\<exists>s. for_loop (bisection_body mul f epsilon) (bisection_init a b (g a) (g b))
                    [1..max_iter] = Next s \<and> c = (current_a s + current_b s) / 2)) \<or>
            (1 \<le> n \<and> n \<le> max_iter \<and> a \<le> c \<and> c \<le> b \<and>
             (\<exists>s. for_loop (bisection_body mul f epsilon) (bisection_init a b (g a) (g b))
                    [1..n - 1] = Next s \<and> c = (current_a s + current_b s) / 2) \<and>
             \<not> mul (g a) (g c) < 0 \<and> \<not> mul (g c) (g b) < 0)) \<and>
           (mul = (*) \<longrightarrow> \<bar>g c\<bar> < epsilon \<or> n = max_iter)"
proof -
  from ev ab have fa: "f a = Inr (g a)" and fb: "f b = Inr (g b)" by simp_all
  from opp have npos: "\<not> mul (g a) (g b) > 0" by simp
  let ?loop = "for_loop (bisection_body mul f epsilon) (bisection_init a b (g a) (g b)) [1..max_iter]"
  let ?res = "fst (bisection mul a b f epsilon max_iter out)"
  have main: "\<exists>c n. ?res = Inr (Some (c, n)) \<and>
           (\<bar>g c\<bar> < epsilon \<or>
            (n = max_iter \<and> (\<exists>s. ?loop = Next s \<and> c = (current_a s + current_b s) / 2)) \<or>
            (1 \<le> n \<and> n \<le> max_iter \<and> a \<le> c \<and> c \<le> b \<and>
             (\<exists>s. for_loop (bisection_body mul f epsilon) (bisection_init a b (g a) (g b))
                    [1..n - 1] = Next s \<and> c = (current_a s + current_b s) / 2) \<and>
             \<not> mul (g a) (g c) < 0 \<and> \<not> mul (g c) (g b) < 0))"
  proof (cases "\<bar>g a\<bar> < epsilon")
    case True
    with ab fa fb npos have "?res = Inr (Some (a, 0))" by (simp add: bisection_def)
    with True show ?thesis by blast
  next
    case na: False
    show ?thesis
    proof (cases "\<bar>g b\<bar> < epsilon")
      case True
      with na ab fa fb npos have "?res = Inr (Some (b, 0))" by (simp add: bisection_def)
      with True show ?thesis by blast
    next
      case nb: False
      from ab fa fb npos na nb
      have unfold: "?res =
          fst (case ?loop of Exit r \<Rightarrow> (r, out)
             | Next s \<Rightarrow> (Inr (Some ((current_a s + current_b s) / 2, max_iter)),
                 out @ [Max_iter_notice max_iter]))"
        by (simp add: bisection_def)
      show ?thesis
      proof (cases ?loop)
        case (Exit r)
        have "f_a (bisection_init a b (g a) (g b)) = g a \<and>
            f_b (bisection_init a b (g a) (g b)) = g b \<and>
            bisection_range a b (bisection_init a b (g a) (g b))"
          using bisection_init_range [OF ab] by (simp add: bisection_init_def)
        from bisection_loop_exit_cases [OF ev this Exit] obtain c i ys zs s' where
          r: "r = Inr (Some (c, i))" and c: "a \<le> c" "c \<le> b"
          and split: "[1..max_iter] = ys @ i # zs"
          and pre: "for_loop (bisection_body mul f epsilon) (bisection_init a b (g a) (g b)) ys
            = Next s'"
          and mid: "c = (current_a s' + current_b s') / 2"
          and how: "\<bar>g c\<bar> < epsilon \<or> \<not> mul (g a) (g c) < 0 \<and> \<not> mul (g c) (g b) < 0"
          by blast
        have "i \<in> set [1..max_iter]" by (simp add: split)
        then have i: "1 \<le> i" "i \<le> max_iter" by simp_all
        from upto_prefix [OF split] pre mid
        have reached: "\<exists>s. for_loop (bisection_body mul f epsilon) (bisection_init a b (g a) (g b))
            [1..i - 1] = Next s \<and> c = (current_a s + current_b s) / 2"
          by blast
        from unfold Exit r have "?res = Inr (Some (c, i))" by simp
        with i c reached how show ?thesis by blast
      next
        case (Next s)
        with unfold have "?res = Inr (Some ((current_a s + current_b s) / 2, max_iter))"
          by simp
        with Next show ?thesis by blast
      qed
    qed
  qed
  then obtain c n where res: "?res = Inr (Some (c, n))"
    and how: "\<bar>g c\<bar> < epsilon \<or>
            (n = max_iter \<and> (\<exists>s. ?loop = Next s \<and> c = (current_a s + current_b s) / 2)) \<or>
            (1 \<le> n \<and> n \<le> max_iter \<and> a \<le> c \<and> c \<le> b \<and>
             (\<exists>s. for_loop (bisection_body mul f epsilon) (bisection_init a b (g a) (g b))
                    [1..n - 1] = Next s \<and> c = (current_a s + current_b s) / 2) \<and>
             \<not> mul (g a) (g c) < 0 \<and> \<not> mul (g c) (g b) < 0)"
    by blast
  have "\<bar>g c\<bar> < epsilon \<or> n = max_iter" if exact: "mul = (*)"
  proof (rule ccontr)
    assume no: "\<not> (\<bar>g c\<bar> < epsilon \<or> n = max_iter)"
    with how exact have else_taken: "\<not> g a * g c < 0" "\<not> g c * g b < 0" by auto
    from no eps have "g c \<noteq> 0" by auto
    with opp exact have "g a * g c < 0 \<or> g c * g b < 0" by (simp add: sign_dichotomy)
    with else_taken show False by blast
  qed
  with res how show ?thesis by blast
qed

theorem bisection_result_witness:
  "(- 1 :: real) < 1 + 1 / 2 ^ 40 \<and>
   (\<forall>x. f_tiny x = Inr (x * (1 / 2 ^ 520))) \<and>
   double_times (- 1 * (1 / 2 ^ 520)) ((1 + 1 / 2 ^ 40) * (1 / 2 ^ 520)) < 0 \<and>
   (0 :: real) < 1 / 2 ^ 600 \<and>
   fst (bisection double_times (- 1) (1 + 1 / 2 ^ 40) f_tiny (1 / 2 ^ 600) 5 []) =
     Inr (Some (1 / 2 ^ 41, 1)) \<and>
   \<not> double_times (- 1 * (1 / 2 ^ 520)) (1 / 2 ^ 41 * (1 / 2 ^ 520)) < 0 \<and>
   \<not> double_times (1 / 2 ^ 41 * (1 / 2 ^ 520)) ((1 + 1 / 2 ^ 40) * (1 / 2 ^ 520)) < 0 \<and>
   (0 :: real) < 1 \<and> (\<forall>x. f_lin x = Inr (x - 3 / 4)) \<and> (0 - 3 / 4) * (1 - 3 / 4) < (0 :: real) \<and>
   (0 :: real) < 1 / 100 \<and>
   fst (bisection (*) 0 1 f_lin (1 / 100) 3 []) = Inr (Some (3 / 4, 2)) \<and>
   \<bar>3 / 4 - 3 / 4 :: real\<bar> < 1 / 100"
proof -
  have ev_t: "\<forall>x. f_tiny x = Inr (x * (1 / 2 ^ 520))" by (simp add: f_tiny_def)
  have opp_t: "double_times (- 1 * (1 / 2 ^ 520)) ((1 + 1 / 2 ^ 40) * (1 / 2 ^ 520)) < 0"
    by (simp add: double_times_def)
  have run_t: "fst (bisection double_times (- 1) (1 + 1 / 2 ^ 40) f_tiny (1 / 2 ^ 600) 5 []) =
      Inr (Some (1 / 2 ^ 41, 1))"
    by (simp add: bisection_def bisection_body_def bisection_init_def f_tiny_def double_times_def
        Let_def upto.simps)
  have else_t: "\<not> double_times (- 1 * (1 / 2 ^ 520)) (1 / 2 ^ 41 * (1 / 2 ^ 520)) < 0"
    "\<not> double_times (1 / 2 ^ 41 * (1 / 2 ^ 520)) ((1 + 1 / 2 ^ 40) * (1 / 2 ^ 520)) < 0"
    by (simp_all add: double_times_def)
  from ev_t have ev_t': "\<forall>x. - 1 \<le> x \<and> x \<le> 1 + 1 / 2 ^ 40 \<longrightarrow> f_tiny x = Inr (x * (1 / 2 ^ 520))"
    by simp
  have "(- 1 :: real) < 1 + 1 / 2 ^ 40" by simp
  from bisection_result [where mul = double_times and f = f_tiny and g = "\<lambda>x. x * (1 / 2 ^ 520)"
      and epsilon = "1 / 2 ^ 600" and max_iter = 5 and out = "[]", OF this ev_t' opp_t]
  have promised_t: "\<exists>c n. fst (bisection double_times (- 1) (1 + 1 / 2 ^ 40) f_tiny (1 / 2 ^ 600) 5 []) =
      Inr (Some (c, n))"
    by auto
  have ev: "\<forall>x. f_lin x = Inr (x - 3 / 4)" by (simp add: f_lin_def)
  have run: "fst (bisection (*) 0 1 f_lin (1 / 100) 3 []) = Inr (Some (3 / 4, 2))"
    by (simp add: bisection_def bisection_body_def bisection_init_def f_lin_def Let_def upto.simps)
  from ev have ev': "\<forall>x. 0 \<le> x \<and> x \<le> 1 \<longrightarrow> f_lin x = Inr (x - 3 / 4)" by simp
  have "(0 :: real) < 1" by simp
  from bisection_result [where mul = "(*)" and f = f_lin and g = "\<lambda>x. x - 3 / 4"
      and epsilon = "1 / 100" and max_iter = 3 and out = "[]", OF this ev']
  have promised: "\<exists>c n. fst (bisection (*) 0 1 f_lin (1 / 100) 3 []) = Inr (Some (c, n)) \<and>
      (\<bar>c - 3 / 4\<bar> < 1 / 100 \<or> n = 3)"
    by auto
  with run have "\<bar>3 / 4 - 3 / 4 :: real\<bar> < 1 / 100" by simp
  with promised_t ev_t opp_t run_t else_t ev run show ?thesis by simp
qed

text \<open>
  Claim C6. In exact arithmetic, for an evaluator that returns \<open>g x\<close> everywhere, with
  \<open>g a * g b < 0\<close> and \<open>epsilon > 0\<close>: after any number \<open>n\<close> of passes that the loop
  makes without leaving, the cached values are still \<open>g a\<close> and \<open>g b\<close>, \<open>g\<close> has the
  sign of \<open>g a\<close> at \<^verbatim>\<open>current_a\<close> and the sign of \<open>g b\<close> at \<^verbatim>\<open>current_b\<close>, so the
  product of the two values is negative, and in the next pass one of the two sign
  comparisons succeeds whenever the tolerance test fails: the final \<^verbatim>\<open>else\<close> is
  not reached. Accordingly every return from inside the loop passes the tolerance
  test. The bounds \<open>\<bar>g a\<bar> \<ge> epsilon\<close> and \<open>\<bar>g b\<bar> \<ge> epsilon\<close>, under which the
  loop is entered, are not needed for this.
\<close>

theorem bisection_signs_preserved:
  assumes ev: "\<forall>x. f x = Inr (g x)" and opp: "g a * g b < 0" and eps: "0 < epsilon"
  shows "(\<forall>s. for_loop (bisection_body (*) f epsilon) (bisection_init a b (g a) (g b)) [1..n] = Next s \<longrightarrow>
            f_a s = g a \<and> f_b s = g b \<and>
            sgn (g (current_a s)) = sgn (g a) \<and> sgn (g (current_b s)) = sgn (g b) \<and>
            g (current_a s) * g (current_b s) < 0 \<and>
            (\<not> \<bar>g ((current_a s + current_b s) / 2)\<bar> < epsilon \<longrightarrow>
               f_a s * g ((current_a s + current_b s) / 2) < 0 \<or>
               g ((current_a s + current_b s) / 2) * f_b s < 0)) \<and>
         (\<forall>r. for_loop (bisection_body (*) f epsilon) (bisection_init a b (g a) (g b)) [1..n] = Exit r \<longrightarrow>
            (\<exists>c i. r = Inr (Some (c, i)) \<and> \<bar>g c\<bar> < epsilon))"
proof -
  let ?loop = "for_loop (bisection_body (*) f epsilon) (bisection_init a b (g a) (g b)) [1..n]"
  have loop: "(\<forall>s'. ?loop = Next s' \<longrightarrow> bisection_signs g (g a) (g b) s' \<and> True) \<and>
         (\<forall>r. ?loop = Exit r \<longrightarrow>
            (\<exists>c i. r = Inr (Some (c, i)) \<and> \<bar>g c\<bar> < epsilon \<and> i \<in> set [1..n]))"
  proof (rule bisection_loop_signs [where R = "\<lambda>t. True"])
    show "bisection_signs g (g a) (g b) (bisection_init a b (g a) (g b))"
      by (rule bisection_init_signs)
  qed (use ev opp eps in auto)
  have "f_a s = g a \<and> f_b s = g b \<and>
        sgn (g (current_a s)) = sgn (g a) \<and> sgn (g (current_b s)) = sgn (g b) \<and>
        g (current_a s) * g (current_b s) < 0 \<and>
        (\<not> \<bar>g ((current_a s + current_b s) / 2)\<bar> < epsilon \<longrightarrow>
           f_a s * g ((current_a s + current_b s) / 2) < 0 \<or>
           g ((current_a s + current_b s) / 2) * f_b s < 0)"
    if "?loop = Next s" for s
  proof -
    from loop that have inv: "bisection_signs g (g a) (g b) s" by blast
    then have fa: "f_a s = g a" and fb: "f_b s = g b"
      and sa: "sgn (g (current_a s)) = sgn (g a)" and sb: "sgn (g (current_b s)) = sgn (g b)"
      by (simp_all add: bisection_signs_def)
    from opposite_signs [OF opp sa sb] have prod: "g (current_a s) * g (current_b s) < 0" .
    have "g a * g ((current_a s + current_b s) / 2) < 0 \<or>
          g ((current_a s + current_b s) / 2) * g b < 0"
      if "\<not> \<bar>g ((current_a s + current_b s) / 2)\<bar> < epsilon"
    proof -
      from that eps have "g ((current_a s + current_b s) / 2) \<noteq> 0" by auto
      with opp show ?thesis by (rule sign_dichotomy)
    qed
    with fa fb sa sb prod show ?thesis by simp
  qed
  moreover have "\<exists>c i. r = Inr (Some (c, i)) \<and> \<bar>g c\<bar> < epsilon" if "?loop = Exit r" for r
    using loop that by blast
  ultimately show ?thesis by blast
qed

theorem bisection_signs_preserved_witness:
  "(\<forall>x. f_lin x = Inr (x - 3 / 4)) \<and> (0 - 3 / 4) * (1 - 3 / 4) < (0::real) \<and> (0::real) < 1 / 100 \<and>
   for_loop (bisection_body (*) f_lin (1 / 100)) (bisection_init 0 1 (0 - 3 / 4) (1 - 3 / 4)) [1..1] =
     Next \<lparr>f_a = - (3 / 4), f_b = 1 / 4, iter_count = 1, current_a = 1 / 2, current_b = 1\<rparr> \<and>
   sgn (1 / 2 - 3 / 4 :: real) = sgn (0 - 3 / 4) \<and> sgn (1 - 3 / 4 :: real) = sgn (1 - 3 / 4) \<and>
   (1 / 2 - 3 / 4) * (1 - 3 / 4) < (0::real) \<and>
   for_loop (bisection_body (*) f_lin (1 / 100)) (bisection_init 0 1 (0 - 3 / 4) (1 - 3 / 4)) [1..2] =
     Exit (Inr (Some (3 / 4, 2))) \<and>
   \<bar>3 / 4 - 3 / 4 :: real\<bar> < 1 / 100"
proof -
  have ev: "\<forall>x. f_lin x = Inr (x - 3 / 4)" by (simp add: f_lin_def)
  have run1: "for_loop (bisection_body (*) f_lin (1 / 100)) (bisection_init 0 1 (0 - 3 / 4) (1 - 3 / 4)) [1..1] =
     Next \<lparr>f_a = - (3 / 4), f_b = 1 / 4, iter_count = 1, current_a = 1 / 2, current_b = 1\<rparr>"
    by (simp add: bisection_body_def bisection_init_def f_lin_def Let_def upto.simps)
  have run2: "for_loop (bisection_body (*) f_lin (1 / 100)) (bisection_init 0 1 (0 - 3 / 4) (1 - 3 / 4)) [1..2] =
     Exit (Inr (Some (3 / 4, 2)))"
    by (simp add: bisection_body_def bisection_init_def f_lin_def Let_def upto.simps)
  from bisection_signs_preserved [of f_lin "\<lambda>x. x - 3 / 4" 0 1 "1 / 100" 1, OF ev]
    bisection_signs_preserved [of f_lin "\<lambda>x. x - 3 / 4" 0 1 "1 / 100" 2, OF ev]
    ev run1 run2
  show ?thesis by simp
qed

text \<open>
  Claim C2 says that only the upper endpoint is ever moved. On the line \<open>x - 3/4\<close>
  over \<open>[0, 1]\<close> the first pass takes the \<^verbatim>\<open>elif\<close> branch of line 129 and moves the
  lower endpoint from \<open>0\<close> to \<open>1/2\<close>; with \<^verbatim>\<open>max_iter = 1\<close> the function then
  returns the midpoint \<open>3/4\<close> of \<open>[1/2, 1]\<close>.
\<close>

theorem bisection_lower_endpoint_counterexample:
  "bisection_body (*) f_lin (1 / 100) (bisection_init 0 1 (- (3 / 4)) (1 / 4)) 1 =
     Next \<lparr>f_a = - (3 / 4), f_b = 1 / 4, iter_count = 1, current_a = 1 / 2, current_b = 1\<rparr> \<and>
   current_a (bisection_init 0 1 (- (3 / 4)) (1 / 4)) = 0 \<and>
   current_b (bisection_init 0 1 (- (3 / 4)) (1 / 4)) = 1 \<and>
   fst (bisection (*) 0 1 f_lin (1 / 100) 1 []) = Inr (Some (3 / 4, 1))"
  by (simp add: bisection_def bisection_body_def bisection_init_def f_lin_def Let_def upto.simps)

text \<open>
  Claim C2, amended. A pass of the loop body that does not leave the function moves
  exactly one endpoint to the midpoint: \<^verbatim>\<open>current_b\<close> when \<open>f_a * f_c < 0\<close>, otherwise
  \<^verbatim>\<open>current_a\<close> when \<open>f_c * f_b < 0\<close>. The cached values \<^verbatim>\<open>f_a\<close> and \<^verbatim>\<open>f_b\<close> are
  never changed, neither by one pass nor by the whole loop, so every sign comparison
  uses the original \<^verbatim>\<open>f(a)\<close> and \<^verbatim>\<open>f(b)\<close>.
\<close>

theorem bisection_updates:
  "(\<forall>s'. bisection_body mul f epsilon s i = Next s' \<longrightarrow>
      f_a s' = f_a s \<and> f_b s' = f_b s \<and>
      (\<exists>f_c. f ((current_a s + current_b s) / 2) = Inr f_c \<and>
         (mul (f_a s) f_c < 0 \<and> current_b s' = (current_a s + current_b s) / 2 \<and>
            current_a s' = current_a s \<or>
          mul f_c (f_b s) < 0 \<and> \<not> mul (f_a s) f_c < 0 \<and>
            current_a s' = (current_a s + current_b s) / 2 \<and>
            current_b s' = current_b s))) \<and>
   (\<forall>s'. for_loop (bisection_body mul f epsilon) s xs = Next s' \<longrightarrow>
      f_a s' = f_a s \<and> f_b s' = f_b s)"
proof -
  have step: "f_a s' = f_a s \<and> f_b s' = f_b s \<and>
      (\<exists>f_c. f ((current_a s + current_b s) / 2) = Inr f_c \<and>
         (mul (f_a s) f_c < 0 \<and> current_b s' = (current_a s + current_b s) / 2 \<and>
            current_a s' = current_a s \<or>
          mul f_c (f_b s) < 0 \<and> \<not> mul (f_a s) f_c < 0 \<and>
            current_a s' = (current_a s + current_b s) / 2 \<and>
            current_b s' = current_b s))"
    if "bisection_body mul f epsilon s i = Next s'" for s'
  proof (cases "f ((current_a s + current_b s) / 2)")
    case (Inl e)
    with that show ?thesis by (simp add: bisection_body_def Let_def)
  next
    case (Inr fc)
    note body = bisection_body_cases [where mul = mul and c = "(current_a s + current_b s) / 2"
        and s = s and f = f and fc = fc and epsilon = epsilon and i = i, OF refl Inr]
    from that body show ?thesis
      unfolding Inr by (auto split: if_splits simp del: divide_eq_eq_numeral1 eq_divide_eq_numeral1)
  qed
  have loop: "f_a s' = f_a s \<and> f_b s' = f_b s"
    if "for_loop (bisection_body mul f epsilon) s xs = Next s'" for s'
  proof (rule for_loop_invariant [OF that, where P = "\<lambda>t. f_a t = f_a s \<and> f_b t = f_b s"])
    show "f_a s = f_a s \<and> f_b s = f_b s" by simp
  next
    fix t x t'
    assume "f_a t = f_a s \<and> f_b t = f_b s" and "bisection_body mul f epsilon t x = Next t'"
    with bisection_body_frame [of mul f epsilon t x t'] show "f_a t' = f_a s \<and> f_b t' = f_b s"
      by simp
  qed
  from step loop show ?thesis by blast
qed

theorem bisection_updates_witness:
  "bisection_body (*) f_lin (1 / 100) (bisection_init 0 1 (- (3 / 4)) (1 / 4)) 1 =
     Next \<lparr>f_a = - (3 / 4), f_b = 1 / 4, iter_count = 1, current_a = 1 / 2, current_b = 1\<rparr> \<and>
   f_lin ((0 + 1) / 2) = Inr (- (1 / 4)) \<and> - (1 / 4) * (1 / 4) < (0::real) \<and>
   \<not> - (3 / 4) * - (1 / 4) < (0::real) \<and>
   bisection_body (*) f_lin (1 / 100) (bisection_init 0 2 (- (3 / 4)) (5 / 4)) 1 =
     Next \<lparr>f_a = - (3 / 4), f_b = 5 / 4, iter_count = 1, current_a = 0, current_b = 1\<rparr> \<and>
   f_lin ((0 + 2) / 2) = Inr (1 / 4) \<and> - (3 / 4) * (1 / 4) < (0::real) \<and>
   for_loop (bisection_body (*) f_lin (1 / 100)) (bisection_init 0 2 (- (3 / 4)) (5 / 4)) [1..2] =
     Next \<lparr>f_a = - (3 / 4), f_b = 5 / 4, iter_count = 2, current_a = 1 / 2, current_b = 1\<rparr>"
proof -
  have run1: "bisection_body (*) f_lin (1 / 100) (bisection_init 0 1 (- (3 / 4)) (1 / 4)) 1 =
     Next \<lparr>f_a = - (3 / 4), f_b = 1 / 4, iter_count = 1, current_a = 1 / 2, current_b = 1\<rparr>"
    by (simp add: bisection_body_def bisection_init_def f_lin_def Let_def)
  have run2: "bisection_body (*) f_lin (1 / 100) (bisection_init 0 2 (- (3 / 4)) (5 / 4)) 1 =
     Next \<lparr>f_a = - (3 / 4), f_b = 5 / 4, iter_count = 1, current_a = 0, current_b = 1\<rparr>"
    by (simp add: bisection_body_def bisection_init_def f_lin_def Let_def)
  have run3: "for_loop (bisection_body (*) f_lin (1 / 100)) (bisection_init 0 2 (- (3 / 4)) (5 / 4)) [1..2] =
     Next \<lparr>f_a = - (3 / 4), f_b = 5 / 4, iter_count = 2, current_a = 1 / 2, current_b = 1\<rparr>"
    by (simp add: bisection_body_def bisection_init_def f_lin_def Let_def upto.simps)
  from bisection_updates [where mul = "(*)" and f = f_lin and epsilon = "1 / 100"
      and s = "bisection_init 0 1 (- (3 / 4)) (1 / 4)" and i = 1 and xs = "[]"] run1
  have kept1: "f_a \<lparr>f_a = - (3 / 4), f_b = 1 / 4, iter_count = 1, current_a = 1 / 2, current_b = 1\<rparr> =
      f_a (bisection_init 0 1 (- (3 / 4)) (1 / 4))"
    by blast
  from bisection_updates [where mul = "(*)" and f = f_lin and epsilon = "1 / 100"
      and s = "bisection_init 0 2 (- (3 / 4)) (5 / 4)" and i = 1 and xs = "[1..2]"] run3
  have kept2: "f_b \<lparr>f_a = - (3 / 4), f_b = 5 / 4, iter_count = 2, current_a = 1 / 2, current_b = 1\<rparr> =
      f_b (bisection_init 0 2 (- (3 / 4)) (5 / 4))"
    by blast
  from kept1 kept2 run1 run2 run3 show ?thesis by (simp add: f_lin_def)
qed

section \<open>Newton: when there is no result\<close>

lemma newton_body_none:
  "newton_body f df epsilon s k = Exit (Inr None) \<longleftrightarrow> df (x_curr s) = Inr 0"
  by (auto simp: newton_body_def Let_def split: sum.splits)

lemma newton_iterate_none:
  "newton_iterate f df epsilon max_iter x0 = Inr None \<longleftrightarrow>
     (\<exists>k s. 0 \<le> k \<and> k < max_iter \<and>
        for_loop (newton_body f df epsilon) (newton_init x0) [0..k - 1] = Next s \<and>
        df (x_curr s) = Inr 0)"
proof
  assume none: "newton_iterate f df epsilon max_iter x0 = Inr None"
  then have "for_loop (newton_body f df epsilon) (newton_init x0) [0..max_iter - 1] = Exit (Inr None)"
    by (simp add: newton_iterate_def split: flow.splits)
  from for_loop_exit_split [OF this] obtain ys k zs s where
    split: "[0..max_iter - 1] = ys @ k # zs"
    and pre: "for_loop (newton_body f df epsilon) (newton_init x0) ys = Next s"
    and ex: "newton_body f df epsilon s k = Exit (Inr None)"
    by blast
  from upto_prefix [OF split] have ys: "ys = [0..k - 1]" .
  have "k \<in> set [0..max_iter - 1]" by (simp add: split)
  then have "0 \<le> k" and "k < max_iter" by simp_all
  moreover from ex have "df (x_curr s) = Inr 0" by (simp add: newton_body_none)
  ultimately show "\<exists>k s. 0 \<le> k \<and> k < max_iter \<and>
        for_loop (newton_body f df epsilon) (newton_init x0) [0..k - 1] = Next s \<and>
        df (x_curr s) = Inr 0"
    using pre ys by blast
next
  assume "\<exists>k s. 0 \<le> k \<and> k < max_iter \<and>
        for_loop (newton_body f df epsilon) (newton_init x0) [0..k - 1] = Next s \<and>
        df (x_curr s) = Inr 0"
  then obtain k s where k: "0 \<le> k" "k \<le> max_iter - 1"
    and pre: "for_loop (newton_body f df epsilon) (newton_init x0) [0..k - 1] = Next s"
    and zero: "df (x_curr s) = Inr 0"
    by auto
  from zero have "newton_body f df epsilon s k = Exit (Inr None)"
    by (simp add: newton_body_none)
  from for_loop_exit_at [OF pre this]
  have "for_loop (newton_body f df epsilon) (newton_init x0) ([0..k - 1] @ k # [k + 1..max_iter - 1])
      = Exit (Inr None)" .
  with upto_member_split [OF k] show "newton_iterate f df epsilon max_iter x0 = Inr None"
    by (simp add: newton_iterate_def)
qed

text \<open>
  Claim C5. \<^verbatim>\<open>newton\<close> returns \<^verbatim>\<open>None\<close> exactly when it reaches an iterate at which
  \<^verbatim>\<open>df\<close> evaluates to \<open>0\<close>: the starting point is chosen without an exception, some
  number \<open>k < max_iter\<close> of passes go through without leaving the function, and
  \<^verbatim>\<open>df\<close> returns \<open>0\<close> at the current point \<^verbatim>\<open>x_curr\<close> of pass \<open>k + 1\<close>. This holds for
  every \<^verbatim>\<open>max_iter\<close> above \<open>k\<close>, and \<^verbatim>\<open>None\<close> is returned in no other case.
\<close>

theorem newton_none_iff:
  "newton f df ddf a b epsilon max_iter = Inr None \<longleftrightarrow>
     (\<exists>x0 k s. newton_start f ddf a b = Inr x0 \<and> 0 \<le> k \<and> k < max_iter \<and>
        for_loop (newton_body f df epsilon) (newton_init x0) [0..k - 1] = Next s \<and>
        df (x_curr s) = Inr 0)"
proof (cases "newton_start f ddf a b")
  case (Inl x)
  then show ?thesis by (simp add: newton_def)
next
  case (Inr x0)
  then show ?thesis by (simp add: newton_def newton_iterate_none)
qed

theorem newton_none_iff_witness:
  "newton_start f_sq ddf_sq 0 1 = Inr 1 \<and> (0::int) \<le> 1 \<and> (1::int) < 5 \<and>
   for_loop (newton_body f_sq df_kink (1 / 100)) (newton_init 1) [0..1 - 1] =
     Next \<lparr>x_curr = 5 / 8, iteration = 1\<rparr> \<and>
   df_kink (5 / 8) = Inr 0 \<and>
   newton f_sq df_kink ddf_sq 0 1 (1 / 100) 5 = Inr None"
proof -
  have start: "newton_start f_sq ddf_sq 0 1 = Inr 1"
    by (simp add: newton_start_def f_sq_def ddf_sq_def)
  have run: "for_loop (newton_body f_sq df_kink (1 / 100)) (newton_init 1) [0..1 - 1] =
     Next \<lparr>x_curr = 5 / 8, iteration = 1\<rparr>"
    by (simp add: newton_body_def newton_init_def f_sq_def df_kink_def Let_def upto.simps)
  have flat: "df_kink (x_curr \<lparr>x_curr = 5 / 8, iteration = 1\<rparr>) = Inr 0"
    by (simp add: df_kink_def)
  from start run flat
  have "\<exists>x0 k s. newton_start f_sq ddf_sq 0 1 = Inr x0 \<and> 0 \<le> k \<and> k < 5 \<and>
        for_loop (newton_body f_sq df_kink (1 / 100)) (newton_init x0) [0..k - 1] = Next s \<and>
        df_kink (x_curr s) = Inr 0"
    by (intro exI [of _ 1] exI [of _ "\<lparr>x_curr = 5 / 8, iteration = 1\<rparr>"]) simp
  with newton_none_iff [of f_sq df_kink ddf_sq 0 1 "1 / 100" 5]
  have "newton f_sq df_kink ddf_sq 0 1 (1 / 100) 5 = Inr None" by blast
  with start run flat show ?thesis by simp
qed

section \<open>Secant: using up the iterations\<close>

text \<open>Every pass that goes on has assigned \<^verbatim>\<open>c\<close> and counted one iteration.\<close>

lemma secant_body_next:
  assumes "secant_body f epsilon s k = Next s'"
  shows "sec_c s' \<noteq> None \<and> sec_i s' = sec_i s + 1"
  using assms
  by (auto simp: secant_body_def Let_def split: if_splits sum.splits)

lemma secant_loop_next:
  assumes "for_loop (secant_body f epsilon) s xs = Next s'"
  shows "(xs \<noteq> [] \<longrightarrow> sec_c s' \<noteq> None) \<and> sec_i s' = sec_i s + int (length xs)"
  using assms
proof (induction xs arbitrary: s)
  case Nil
  then show ?case by simp
next
  case (Cons x xs)
  then obtain s1 where body: "secant_body f epsilon s x = Next s1"
    and loop: "for_loop (secant_body f epsilon) s1 xs = Next s'"
    by (auto split: flow.splits)
  from secant_body_next [OF body] have s1: "sec_c s1 \<noteq> None" "sec_i s1 = sec_i s + 1"
    by simp_all
  from Cons.IH [OF loop] have ih: "xs \<noteq> [] \<longrightarrow> sec_c s' \<noteq> None"
    "sec_i s' = sec_i s1 + int (length xs)"
    by simp_all
  show ?case
  proof (cases xs)
    case Nil
    with loop s1 show ?thesis by simp
  next
    case (Cons y ys)
    with ih s1 show ?thesis by simp
  qed
qed

lemma secant_exhausted:
  assumes "f a = Inr fa" and "f b = Inr fb" and "fa * fb < 0" and "1 \<le> max_iters"
    and loop: "for_loop (secant_body f epsilon) (secant_init a b fa fb) [0..max_iters - 1] = Next s"
  shows "\<exists>c. sec_c s = Some c \<and> secant a b f epsilon max_iters = Inr (Some (c, max_iters))"
proof -
  from assms(4) have "[0..max_iters - 1] \<noteq> []" by simp
  with secant_loop_next [OF loop] assms(4)
  have "sec_c s \<noteq> None" and "sec_i s = max_iters"
    by (simp_all add: secant_init_def)
  with assms(1-3) loop show ?thesis
    by (auto simp: secant_def)
qed

lemma secant_no_iterations:
  assumes "f a = Inr fa" and "f b = Inr fb" and "fa * fb < 0" and "max_iters \<le> 0"
  shows "secant a b f epsilon max_iters = Inl Unbound_local_error"
  using assms by (simp add: secant_def secant_init_def)

text \<open>
  Claim C4 promises the last computed pair, and never an error, for every
  \<open>max_iters \<ge> 0\<close> once the sign check has passed and the loop has run through its
  range. For \<open>max_iters \<ge> 1\<close> this is \<open>secant_exhausted\<close>. For \<open>max_iters = 0\<close> the
  body never runs, \<^verbatim>\<open>c\<close> is unbound at line 177 and the call raises
  \<^verbatim>\<open>UnboundLocalError\<close> (\<open>secant_no_iterations\<close>); here on the line \<open>x - 3/4\<close> over
  \<open>[0, 1]\<close>.
\<close>

theorem secant_zero_iterations_unbound:
  "secant 0 1 f_lin (1 / 100) 0 = Inl Unbound_local_error"
  by (simp add: secant_def secant_init_def f_lin_def)

section \<open>Exceptions of the evaluator\<close>

text \<open>The \<^verbatim>\<open>try\<close> blocks of \<^verbatim>\<open>bisection\<close> leave nothing to escape.\<close>

lemma bisection_body_no_raise: "bisection_body mul f epsilon s i \<noteq> Exit (Inl x)"
  by (simp add: bisection_body_def Let_def split: sum.splits)

lemma bisection_loop_no_raise: "for_loop (bisection_body mul f epsilon) s xs \<noteq> Exit (Inl x)"
proof
  assume "for_loop (bisection_body mul f epsilon) s xs = Exit (Inl x)"
  from for_loop_exit_split [OF this] obtain s' i where "bisection_body mul f epsilon s' i = Exit (Inl x)"
    by blast
  with bisection_body_no_raise show False by blast
qed

lemma bisection_no_raise: "fst (bisection mul a b f epsilon max_iter out) \<noteq> Inl x"
  using bisection_loop_no_raise [of mul f epsilon "bisection_init a b fa fb" "[1..max_iter]" x
      for fa fb]
  by (auto simp: bisection_def split: sum.splits flow.splits)

lemma bisection_endpoint_raise:
  "a < b \<and> (f a = Inl e \<or> f b = Inl e) \<longrightarrow>
     fst (bisection mul a b f epsilon max_iter out) = Inr None"
  by (auto simp: bisection_def split: sum.splits)

lemma bisection_body_raise:
  "f ((current_a s + current_b s) / 2) = Inl e \<longrightarrow>
     bisection_body mul f epsilon s k = Exit (Inr None)"
  by (simp add: bisection_body_def Let_def)

lemma bisection_loop_exit:
  "a < b \<and> f a = Inr fa \<and> f b = Inr fb \<and> \<not> mul fa fb > 0 \<and>
   \<not> \<bar>fa\<bar> < epsilon \<and> \<not> \<bar>fb\<bar> < epsilon \<and> 1 \<le> k \<and> k \<le> max_iter \<and>
   for_loop (bisection_body mul f epsilon) (bisection_init a b fa fb) [1..k - 1] = Next s \<and>
   bisection_body mul f epsilon s k = Exit r \<longrightarrow>
     fst (bisection mul a b f epsilon max_iter out) = r"
proof (intro impI, elim conjE)
  assume pre: "for_loop (bisection_body mul f epsilon) (bisection_init a b fa fb) [1..k - 1] = Next s"
    and ex: "bisection_body mul f epsilon s k = Exit r"
    and k: "1 \<le> k" "k \<le> max_iter"
    and enter: "a < b" "f a = Inr fa" "f b = Inr fb" "\<not> mul fa fb > 0"
      "\<not> \<bar>fa\<bar> < epsilon" "\<not> \<bar>fb\<bar> < epsilon"
  from for_loop_exit_at [OF pre ex] upto_member_split [OF k]
  have "for_loop (bisection_body mul f epsilon) (bisection_init a b fa fb) [1..max_iter] = Exit r"
    by simp
  with enter show "fst (bisection mul a b f epsilon max_iter out) = r"
    by (simp add: bisection_def)
qed

lemma secant_first_raise:
  "f a = Inl e \<longrightarrow> secant a b f epsilon max_iters = Inl (Evaluator_error e)"
  by (simp add: secant_def)

lemma secant_second_raise:
  "f a = Inr fa \<and> f b = Inl e \<longrightarrow> secant a b f epsilon max_iters = Inl (Evaluator_error e)"
  by (simp add: secant_def)

lemma secant_body_raise:
  "sec_fb s \<noteq> sec_fa s \<and> f (secant_point s) = Inl e \<longrightarrow>
     secant_body f epsilon s k = Exit (Inl (Evaluator_error e))"
  by (simp add: secant_body_def secant_point_def Let_def)

lemma secant_loop_exit:
  "f a = Inr fa \<and> f b = Inr fb \<and> fa * fb < 0 \<and> 0 \<le> k \<and> k < max_iters \<and>
   for_loop (secant_body f epsilon) (secant_init a b fa fb) [0..k - 1] = Next s \<and>
   secant_body f epsilon s k = Exit r \<longrightarrow>
     secant a b f epsilon max_iters = r"
proof (intro impI, elim conjE)
  assume pre: "for_loop (secant_body f epsilon) (secant_init a b fa fb) [0..k - 1] = Next s"
    and ex: "secant_body f epsilon s k = Exit r"
    and k: "0 \<le> k" "k < max_iters"
    and enter: "f a = Inr fa" "f b = Inr fb" "fa * fb < 0"
  from k have "k \<le> max_iters - 1" by simp
  from for_loop_exit_at [OF pre ex] upto_member_split [OF k(1) this]
  have "for_loop (secant_body f epsilon) (secant_init a b fa fb) [0..max_iters - 1] = Exit r"
    by simp
  with enter show "secant a b f epsilon max_iters = r"
    by (simp add: secant_def)
qed

lemma newton_start_raise:
  "(f a = Inl e \<longrightarrow> newton f df ddf a b epsilon max_iter = Inl (Evaluator_error e)) \<and>
   (f a = Inr fa \<and> ddf a = Inl e \<longrightarrow>
      newton f df ddf a b epsilon max_iter = Inl (Evaluator_error e)) \<and>
   (f a = Inr fa \<and> ddf a = Inr dda \<and> \<not> fa * dda > 0 \<and> f b = Inl e \<longrightarrow>
      newton f df ddf a b epsilon max_iter = Inl (Evaluator_error e)) \<and>
   (f a = Inr fa \<and> ddf a = Inr dda \<and> \<not> fa * dda > 0 \<and> f b = Inr fb \<and> ddf b = Inl e \<longrightarrow>
      newton f df ddf a b epsilon max_iter = Inl (Evaluator_error e))"
  by (simp add: newton_def newton_start_def)

lemma newton_body_raise:
  "(df (x_curr s) = Inl e \<longrightarrow>
      newton_body f df epsilon s k = Exit (Inl (Evaluator_error e))) \<and>
   (df (x_curr s) = Inr d \<and> d \<noteq> 0 \<and> f (x_curr s) = Inl e \<longrightarrow>
      newton_body f df epsilon s k = Exit (Inl (Evaluator_error e))) \<and>
   (df (x_curr s) = Inr d \<and> d \<noteq> 0 \<and> f (x_curr s) = Inr fx \<and>
    \<not> \<bar>(x_curr s - fx / d) - x_curr s\<bar> < epsilon \<and> f (x_curr s - fx / d) = Inl e \<longrightarrow>
      newton_body f df epsilon s k = Exit (Inl (Evaluator_error e)))"
  by (simp add: newton_body_def Let_def)

lemma newton_loop_exit:
  "newton_start f ddf a b = Inr x0 \<and> 0 \<le> k \<and> k < max_iter \<and>
   for_loop (newton_body f df epsilon) (newton_init x0) [0..k - 1] = Next s \<and>
   newton_body f df epsilon s k = Exit r \<longrightarrow>
     newton f df ddf a b epsilon max_iter = r"
proof (intro impI, elim conjE)
  assume pre: "for_loop (newton_body f df epsilon) (newton_init x0) [0..k - 1] = Next s"
    and ex: "newton_body f df epsilon s k = Exit r"
    and k: "0 \<le> k" "k < max_iter"
    and start: "newton_start f ddf a b = Inr x0"
  from k have "k \<le> max_iter - 1" by simp
  from for_loop_exit_at [OF pre ex] upto_member_split [OF k(1) this]
  have "for_loop (newton_body f df epsilon) (newton_init x0) [0..max_iter - 1] = Exit r"
    by simp
  with start show "newton f df ddf a b epsilon max_iter = r"
    by (simp add: newton_def newton_iterate_def)
qed

text \<open>
  Claim C3. \<^verbatim>\<open>bisection\<close> never raises, and returns \<^verbatim>\<open>None\<close> when the evaluator
  raises at a point it evaluates: at \<open>a\<close> or \<open>b\<close> (for \<open>a < b\<close>), or at the midpoint of a
  pass of the loop, whose exit is the result of the function. \<^verbatim>\<open>secant\<close> and
  \<^verbatim>\<open>newton\<close> catch nothing: the evaluator's exception \<open>e\<close> leaves them as it is when
  it is raised at \<open>a\<close> or \<open>b\<close> (in \<^verbatim>\<open>newton\<close> by \<^verbatim>\<open>f\<close> or \<^verbatim>\<open>ddf\<close>, as far as
  the choice of the starting point evaluates them), or in a pass of the loop: at the
  secant point, or by \<^verbatim>\<open>df\<close> or \<^verbatim>\<open>f\<close> at the current point or by \<^verbatim>\<open>f\<close> at the new
  one. A pass \<open>k\<close> of a loop is reached when the passes before it went on.
\<close>

theorem evaluator_exceptions:
  "fst (bisection mul a b f epsilon max_iter out) \<noteq> Inl x \<and>
   (a < b \<and> (f a = Inl e \<or> f b = Inl e) \<longrightarrow>
      fst (bisection mul a b f epsilon max_iter out) = Inr None) \<and>
   (f ((current_a s + current_b s) / 2) = Inl e \<longrightarrow>
      bisection_body mul f epsilon s k = Exit (Inr None)) \<and>
   (a < b \<and> f a = Inr fa \<and> f b = Inr fb \<and> \<not> mul fa fb > 0 \<and>
    \<not> \<bar>fa\<bar> < epsilon \<and> \<not> \<bar>fb\<bar> < epsilon \<and> 1 \<le> k \<and> k \<le> max_iter \<and>
    for_loop (bisection_body mul f epsilon) (bisection_init a b fa fb) [1..k - 1] = Next s \<and>
    bisection_body mul f epsilon s k = Exit r \<longrightarrow>
      fst (bisection mul a b f epsilon max_iter out) = r) \<and>
   (f a = Inl e \<longrightarrow> secant a b f epsilon max_iter = Inl (Evaluator_error e)) \<and>
   (f a = Inr fa \<and> f b = Inl e \<longrightarrow> secant a b f epsilon max_iter = Inl (Evaluator_error e)) \<and>
   (sec_fb t \<noteq> sec_fa t \<and> f (secant_point t) = Inl e \<longrightarrow>
      secant_body f epsilon t k = Exit (Inl (Evaluator_error e))) \<and>
   (f a = Inr fa \<and> f b = Inr fb \<and> fa * fb < 0 \<and> 0 \<le> k \<and> k < max_iter \<and>
    for_loop (secant_body f epsilon) (secant_init a b fa fb) [0..k - 1] = Next t \<and>
    secant_body f epsilon t k = Exit r \<longrightarrow>
      secant a b f epsilon max_iter = r) \<and>
   (f a = Inl e \<longrightarrow> newton f df ddf a b epsilon max_iter = Inl (Evaluator_error e)) \<and>
   (f a = Inr fa \<and> ddf a = Inl e \<longrightarrow>
      newton f df ddf a b epsilon max_iter = Inl (Evaluator_error e)) \<and>
   (f a = Inr fa \<and> ddf a = Inr dda \<and> \<not> fa * dda > 0 \<and> f b = Inl e \<longrightarrow>
      newton f df ddf a b epsilon max_iter = Inl (Evaluator_error e)) \<and>
   (f a = Inr fa \<and> ddf a = Inr dda \<and> \<not> fa * dda > 0 \<and> f b = Inr fb \<and> ddf b = Inl e \<longrightarrow>
      newton f df ddf a b epsilon max_iter = Inl (Evaluator_error e)) \<and>
   (df (x_curr u) = Inl e \<longrightarrow>
      newton_body f df epsilon u k = Exit (Inl (Evaluator_error e))) \<and>
   (df (x_curr u) = Inr d \<and> d \<noteq> 0 \<and> f (x_curr u) = Inl e \<longrightarrow>
      newton_body f df epsilon u k = Exit (Inl (Evaluator_error e))) \<and>
   (df (x_curr u) = Inr d \<and> d \<noteq> 0 \<and> f (x_curr u) = Inr fx \<and>
    \<not> \<bar>(x_curr u - fx / d) - x_curr u\<bar> < epsilon \<and> f (x_curr u - fx / d) = Inl e \<longrightarrow>
      newton_body f df epsilon u k = Exit (Inl (Evaluator_error e))) \<and>
   (newton_start f ddf a b = Inr p \<and> 0 \<le> k \<and> k < max_iter \<and>
    for_loop (newton_body f df epsilon) (newton_init p) [0..k - 1] = Next u \<and>
    newton_body f df epsilon u k = Exit r \<longrightarrow>
      newton f df ddf a b epsilon max_iter = r)"
  by (intro conjI bisection_no_raise bisection_endpoint_raise bisection_body_raise
      bisection_loop_exit secant_first_raise secant_second_raise secant_body_raise
      secant_loop_exit newton_loop_exit
      newton_start_raise [THEN conjunct1]
      newton_start_raise [THEN conjunct2, THEN conjunct1]
      newton_start_raise [THEN conjunct2, THEN conjunct2, THEN conjunct1]
      newton_start_raise [THEN conjunct2, THEN conjunct2, THEN conjunct2]
      newton_body_raise [THEN conjunct1]
      newton_body_raise [THEN conjunct2, THEN conjunct1]
      newton_body_raise [THEN conjunct2, THEN conjunct2])

theorem evaluator_exceptions_witness:
  "(0::real) < 1 \<and> f_raise 0 = Inl () \<and>
   fst (bisection (*) 0 1 f_raise (1 / 100) 3 []) = Inr None \<and>
   secant 0 1 f_raise (1 / 100) 3 = Inl (Evaluator_error ()) \<and>
   newton f_raise df_sq ddf_sq 0 1 (1 / 100) 3 = Inl (Evaluator_error ()) \<and>
   f_mid_raise 0 = Inr (- (3 / 4)) \<and> f_mid_raise 1 = Inr (1 / 4) \<and>
   f_mid_raise ((0 + 1) / 2) = Inl () \<and>
   fst (bisection (*) 0 1 f_mid_raise (1 / 100) 3 []) = Inr None \<and>
   f_root_raise 0 = Inr (- (3 / 4)) \<and> f_root_raise 1 = Inr (1 / 4) \<and>
   f_root_raise (secant_point (secant_init 0 1 (- (3 / 4)) (1 / 4))) = Inl () \<and>
   secant 0 1 f_root_raise (1 / 100) 3 = Inl (Evaluator_error ()) \<and>
   newton_start f_sq ddf_sq 0 1 = Inr 1 \<and> f_raise (x_curr (newton_init 1)) = Inl () \<and>
   newton f_sq f_raise ddf_sq 0 1 (1 / 100) 3 = Inl (Evaluator_error ())"
proof -
  have raise: "f_raise 0 = Inl ()" by (simp add: f_raise_def)
  have pos: "(0::real) < 1" by simp
  note ends = evaluator_exceptions [where mul = "(*)" and a = 0 and b = 1 and f = f_raise and e = "()"
      and epsilon = "1 / 100" and max_iter = 3 and out = "[]" and df = df_sq and ddf = ddf_sq]
  have b1: "fst (bisection (*) 0 1 f_raise (1 / 100) 3 []) = Inr None"
    by (rule ends [THEN conjunct2, THEN conjunct1, THEN mp]) (intro conjI disjI1 pos raise)
  have s1: "secant 0 1 f_raise (1 / 100) 3 = Inl (Evaluator_error ())"
    by (rule ends [THEN conjunct2, THEN conjunct2, THEN conjunct2, THEN conjunct2, THEN conjunct1, THEN mp]) (rule raise)
  have n1: "newton f_raise df_sq ddf_sq 0 1 (1 / 100) 3 = Inl (Evaluator_error ())"
    by (rule ends [THEN conjunct2, THEN conjunct2, THEN conjunct2, THEN conjunct2, THEN conjunct2, THEN conjunct2, THEN conjunct2, THEN conjunct2, THEN conjunct1, THEN mp]) (rule raise)
  have mid: "f_mid_raise 0 = Inr (- (3 / 4))" "f_mid_raise 1 = Inr (1 / 4)"
    "f_mid_raise ((0 + 1) / 2) = Inl ()"
    by (simp_all add: f_mid_raise_def)
  have mid': "f_mid_raise ((current_a (bisection_init 0 1 (- (3 / 4)) (1 / 4)) +
      current_b (bisection_init 0 1 (- (3 / 4)) (1 / 4))) / 2) = Inl ()"
    by (simp add: f_mid_raise_def bisection_init_def)
  have pre_b: "for_loop (bisection_body (*) f_mid_raise (1 / 100)) (bisection_init 0 1 (- (3 / 4)) (1 / 4))
      [1..1 - 1] = Next (bisection_init 0 1 (- (3 / 4)) (1 / 4))"
    by simp
  note loop_b = evaluator_exceptions [where mul = "(*)" and a = 0 and b = 1 and f = f_mid_raise and e = "()"
      and epsilon = "1 / 100" and max_iter = 3 and out = "[]" and k = 1
      and fa = "- (3 / 4)" and fb = "1 / 4" and r = "Inr None"
      and s = "bisection_init 0 1 (- (3 / 4)) (1 / 4)"]
  have body_b: "bisection_body (*) f_mid_raise (1 / 100)
      (bisection_init 0 1 (- (3 / 4)) (1 / 4)) 1 = Exit (Inr None)"
    by (rule loop_b [THEN conjunct2, THEN conjunct2, THEN conjunct1, THEN mp]) (rule mid')
  have side_b: "\<not> - (3 / 4) * (1 / 4) > (0::real)"
    "\<not> \<bar>- (3 / 4)\<bar> < (1 / 100 :: real)" "\<not> \<bar>1 / 4\<bar> < (1 / 100 :: real)"
    "(1::int) \<le> 1" "(1::int) \<le> 3"
    by simp_all
  have b2: "fst (bisection (*) 0 1 f_mid_raise (1 / 100) 3 []) = Inr None"
    by (rule loop_b [THEN conjunct2, THEN conjunct2, THEN conjunct2, THEN conjunct1, THEN mp]) (intro conjI pos mid(1) mid(2) side_b pre_b body_b)
  have root: "f_root_raise 0 = Inr (- (3 / 4))" "f_root_raise 1 = Inr (1 / 4)"
    "f_root_raise (secant_point (secant_init 0 1 (- (3 / 4)) (1 / 4))) = Inl ()"
    "sec_fb (secant_init 0 1 (- (3 / 4)) (1 / 4)) \<noteq> sec_fa (secant_init 0 1 (- (3 / 4)) (1 / 4))"
    by (simp_all add: f_root_raise_def secant_point_def secant_init_def)
  have pre_s: "for_loop (secant_body f_root_raise (1 / 100)) (secant_init 0 1 (- (3 / 4)) (1 / 4))
      [0..0 - 1] = Next (secant_init 0 1 (- (3 / 4)) (1 / 4))"
    by simp
  note loop_s = evaluator_exceptions [where mul = "(*)" and a = 0 and b = 1 and f = f_root_raise and e = "()"
      and epsilon = "1 / 100" and max_iter = 3 and k = 0
      and fa = "- (3 / 4)" and fb = "1 / 4" and r = "Inl (Evaluator_error ())"
      and t = "secant_init 0 1 (- (3 / 4)) (1 / 4)"]
  have body_s: "secant_body f_root_raise (1 / 100)
      (secant_init 0 1 (- (3 / 4)) (1 / 4)) 0 = Exit (Inl (Evaluator_error ()))"
    by (rule loop_s [THEN conjunct2, THEN conjunct2, THEN conjunct2, THEN conjunct2, THEN conjunct2, THEN conjunct2, THEN conjunct1, THEN mp]) (intro conjI root(4) root(3))
  have side_s: "- (3 / 4) * (1 / 4) < (0::real)" "(0::int) \<le> 0" "(0::int) < 3"
    by simp_all
  have s2: "secant 0 1 f_root_raise (1 / 100) 3 = Inl (Evaluator_error ())"
    by (rule loop_s [THEN conjunct2, THEN conjunct2, THEN conjunct2, THEN conjunct2, THEN conjunct2, THEN conjunct2, THEN conjunct2, THEN conjunct1, THEN mp]) (intro conjI root(1) root(2) side_s pre_s body_s)
  have start: "newton_start f_sq ddf_sq 0 1 = Inr 1"
    by (simp add: newton_start_def f_sq_def ddf_sq_def)
  have flat: "f_raise (x_curr (newton_init 1)) = Inl ()"
    by (simp add: f_raise_def)
  have pre_n: "for_loop (newton_body f_sq f_raise (1 / 100)) (newton_init 1) [0..0 - 1] =
      Next (newton_init 1)"
    by simp
  note loop_n = evaluator_exceptions [where mul = "(*)" and a = 0 and b = 1 and f = f_sq and e = "()"
      and df = f_raise and ddf = ddf_sq and epsilon = "1 / 100" and max_iter = 3 and k = 0
      and p = 1 and r = "Inl (Evaluator_error ())" and u = "newton_init 1"]
  have body_n: "newton_body f_sq f_raise (1 / 100) (newton_init 1) 0 =
      Exit (Inl (Evaluator_error ()))"
    by (rule loop_n [THEN conjunct2, THEN conjunct2, THEN conjunct2, THEN conjunct2, THEN conjunct2, THEN conjunct2, THEN conjunct2, THEN conjunct2, THEN conjunct2, THEN conjunct2, THEN conjunct2, THEN conjunct2, THEN conjunct1, THEN mp]) (rule flat)
  have n2: "newton f_sq f_raise ddf_sq 0 1 (1 / 100) 3 = Inl (Evaluator_error ())"
    by (rule loop_n [THEN conjunct2, THEN conjunct2, THEN conjunct2, THEN conjunct2, THEN conjunct2, THEN conjunct2, THEN conjunct2, THEN conjunct2, THEN conjunct2, THEN conjunct2, THEN conjunct2, THEN conjunct2, THEN conjunct2, THEN conjunct2, THEN conjunct2, THEN mp]) (intro conjI start side_s(2) side_s(3) pre_n body_n)
  from pos raise b1 s1 n1 mid b2 root(1-3) s2 start flat n2 show ?thesis
    by (intro conjI)
qed

end
